theory Spec2Isabelle
  imports Complex_Main "HOL-Library.Multiset"
begin

section \<open>Data: the image records of \<^verbatim>\<open>src/App.jsx\<close>\<close>

text \<open>
  JavaScript numbers are modelled as exact reals throughout: the rounding of the
  double-precision arithmetic is not part of the model.
\<close>

datatype aspect = landscape | portrait | square

text \<open>An object of \<^verbatim>\<open>imageDataMap\<close> (lines 6-49).\<close>

record image_data =
  filename :: string
  title :: string
  description :: string
  aspect :: aspect
  alt :: string

text \<open>
  An object of \<^verbatim>\<open>collageData\<close>: the spread of an \<^verbatim>\<open>imageDataMap\<close> object with the field
  \<^verbatim>\<open>imgUrl\<close> added (lines 52-55).
\<close>

record image = image_data +
  imgUrl :: string

definition imageDataMap :: "image_data list" where
  "imageDataMap =
    [\<lparr>filename = ''skydive.png'',
      title = ''Neona the fearless'',
      description = ''She always flys headfirst (literally), her bravery knows no bounds. Always on the lookout for her next thrill.'',
      aspect = landscape,
      alt = ''Woman skydiving headfirst''\<rparr>,
     \<lparr>filename = ''badminton.png'',
      title = ''Neona the Badminton Champ'',
      description = ''Witnessing the rare 'Badminton Rage Mode.' Her opponent may need a new racket, and possibly therapy.'',
      aspect = portrait,
      alt = ''Woman aggressively playing badminton''\<rparr>,
     \<lparr>filename = ''everest.png'',
      title = ''Neona the everest conquerer (On the last day)'',
      description = ''If the due date was to conquer everest by tonight, she'll have it done by 11:59PM'',
      aspect = square,
      alt = ''Woman standing triumphantly on Mount Everest''\<rparr>,
     \<lparr>filename = ''thief.png'',
      title = ''Neona the master theif'',
      description = ''Executing a flawless infiltration to steal the last brick of chocolate. Her stealth is only matched by her hunger.'',
      aspect = landscape,
      alt = ''Woman dressed in black sneaking around''\<rparr>,
     \<lparr>filename = ''ceo.png'',
      title = ''Neona the Chief Executive Ochestra'',
      description = ''Holding an emergency board meeting so she can display her angelic voice, haven't heard any of her employees complain though'',
      aspect = square,
      alt = ''Woman sitting on the floor leading a business meeting''\<rparr>,
     \<lparr>filename = ''diving.png'',
      title = ''Neona the deep diver'',
      description = ''She went diving so deep that her browser crashed. Always researching and studying everything that intrigues her'',
      aspect = portrait,
      alt = ''Woman diving in the ocean with tropical fish''\<rparr>]"

definition collageData :: "image list" where
  "collageData =
     map (\<lambda>item. image_data.extend item (image.fields (''/images/'' @ filename item)))
       imageDataMap"

text \<open>The host's \<^verbatim>\<open>window\<close>, as far as the page reads it.\<close>

record window =
  innerWidth :: real
  scrollY :: real

section \<open>The hook \<^verbatim>\<open>useInView\<close> (lines 62-87)\<close>

text \<open>
  An \<^verbatim>\<open>IntersectionObserverEntry\<close> as the host delivers it, and the options object the
  hook hands to the observer.
\<close>

record entry =
  isIntersecting :: bool
  intersectionRatio :: real

record options =
  threshold :: real

datatype js_error = TypeError

text \<open>
  The observer callback \<^verbatim>\<open>([entry]) => { if (entry.isIntersecting) setInView(true) }\<close>
  over the state \<^verbatim>\<open>inView\<close>. The parameter pattern takes the first element of the array of
  entries; on an empty array \<^verbatim>\<open>entry\<close> is \<^verbatim>\<open>undefined\<close> and reading its property throws.
  The callback reaches \<^verbatim>\<open>options\<close> only through the observer: it never reads the
  threshold or the ratio itself.
\<close>

fun observer_callback :: "options \<Rightarrow> entry list \<Rightarrow> bool \<Rightarrow> js_error + bool" where
  "observer_callback opts [] inView = Inl TypeError"
| "observer_callback opts (entry # _) inView =
     Inr (if isIntersecting entry then True else inView)"

text \<open>\<^verbatim>\<open>useState(false)\<close>: the value of \<^verbatim>\<open>inView\<close> when the hook is created.\<close>

definition useInView_initial :: "options \<Rightarrow> bool" where
  "useInView_initial opts = False"

text \<open>
  One notification: the host calls the callback with the array of entries; an exception
  thrown by the callback leaves the state of the component as it was.
\<close>

definition deliver :: "options \<Rightarrow> bool \<Rightarrow> entry list \<Rightarrow> bool" where
  "deliver opts inView entries =
     (case observer_callback opts entries inView of Inl _ \<Rightarrow> inView | Inr v \<Rightarrow> v)"

text \<open>A tracker's output after a sequence of notifications, delivered in order.\<close>

fun deliver_all :: "options \<Rightarrow> bool \<Rightarrow> entry list list \<Rightarrow> bool" where
  "deliver_all opts inView [] = inView"
| "deliver_all opts inView (entries # rest) = deliver_all opts (deliver opts inView entries) rest"

text \<open>
  A notification qualifies when the entry the callback looks at is intersecting: this
  is the test of line 69.
\<close>

fun qualifying :: "entry list \<Rightarrow> bool" where
  "qualifying [] = False"
| "qualifying (entry # _) = isIntersecting entry"

subsection \<open>The effect of the hook and its cleanup (lines 66-84)\<close>

text \<open>
  A DOM element is named by a number. An observer holds the options it was created with
  and its observation targets; \<^verbatim>\<open>observe\<close> adds a target once, \<^verbatim>\<open>unobserve\<close> removes it.
\<close>

type_synonym element = nat

record observer =
  obs_options :: options
  targets :: "element list"

definition IntersectionObserver :: "options \<Rightarrow> observer" where
  "IntersectionObserver opts = \<lparr>obs_options = opts, targets = []\<rparr>"

definition observe :: "element \<Rightarrow> observer \<Rightarrow> observer" where
  "observe el ob =
     ob\<lparr>targets := (if el \<in> set (targets ob) then targets ob else targets ob @ [el])\<rparr>"

definition unobserve :: "element \<Rightarrow> observer \<Rightarrow> observer" where
  "unobserve el ob = ob\<lparr>targets := removeAll el (targets ob)\<rparr>"

text \<open>
  The body of the effect, given the value of \<^verbatim>\<open>ref.current\<close> when it runs: a new observer,
  which observes the element when the reference is set (lines 67-76).
\<close>

definition useInView_effect :: "options \<Rightarrow> element option \<Rightarrow> observer" where
  "useInView_effect opts ref_current =
     (let observer = IntersectionObserver opts
      in case ref_current of Some el \<Rightarrow> observe el observer | None \<Rightarrow> observer)"

text \<open>
  The cleanup function the effect returns (lines 79-83). It reads \<^verbatim>\<open>ref.current\<close> again,
  when it runs, and acts on the observer of its own effect.
\<close>

definition useInView_cleanup :: "element option \<Rightarrow> observer \<Rightarrow> observer" where
  "useInView_cleanup ref_current observer =
     (case ref_current of Some el \<Rightarrow> unobserve el observer | None \<Rightarrow> observer)"

text \<open>
  The part of a hook instance the effect works on: the mutable cell of \<^verbatim>\<open>useRef(null)\<close> and
  the observer of the last run of the effect. React writes the element into the cell
  when it attaches the \<^verbatim>\<open>div\<close> and writes \<^verbatim>\<open>null\<close> back when it detaches it.
\<close>

record tracker =
  ref_current :: "element option"
  current_observer :: "observer option"

definition tracker_created :: tracker where
  "tracker_created = \<lparr>ref_current = None, current_observer = None\<rparr>"

definition attach_ref :: "element \<Rightarrow> tracker \<Rightarrow> tracker" where
  "attach_ref el t = t\<lparr>ref_current := Some el\<rparr>"

definition detach_ref :: "tracker \<Rightarrow> tracker" where
  "detach_ref t = t\<lparr>ref_current := None\<rparr>"

definition run_effect :: "options \<Rightarrow> tracker \<Rightarrow> tracker" where
  "run_effect opts t = t\<lparr>current_observer := Some (useInView_effect opts (ref_current t))\<rparr>"

definition run_cleanup :: "tracker \<Rightarrow> tracker" where
  "run_cleanup t =
     t\<lparr>current_observer := map_option (useInView_cleanup (ref_current t)) (current_observer t)\<rparr>"

text \<open>
  Mounting a section: React attaches the element to the reference, then runs the effect.
  Destroying it: React detaches the reference while it removes the element, and runs the
  cleanups of \<^verbatim>\<open>useEffect\<close> after that.
\<close>

definition mount :: "options \<Rightarrow> element \<Rightarrow> tracker" where
  "mount opts el = run_effect opts (attach_ref el tracker_created)"

definition unmount :: "tracker \<Rightarrow> tracker" where
  "unmount t = run_cleanup (detach_ref t)"

text \<open>The targets the observer of the tracker still observes.\<close>

definition subscriptions :: "tracker \<Rightarrow> element list" where
  "subscriptions t = (case current_observer t of None \<Rightarrow> [] | Some ob \<Rightarrow> targets ob)"

section \<open>Image elements and their error handlers (lines 126 and 197)\<close>

text \<open>
  The two arrow functions given as the \<^verbatim>\<open>onError\<close> prop, by name, and an \<^verbatim>\<open>img\<close> element as
  far as the handlers touch it. \<^verbatim>\<open>onError\<close> is the prop of the React element: React
  attaches it as a listener of the element's error event. \<^verbatim>\<open>onerror\<close> is the event
  handler property of the DOM node, \<^verbatim>\<open>null\<close> unless a function is assigned to it.
\<close>

datatype fallback = CollageFallback | NarrativeFallback

record img_element =
  src :: string
  img_alt :: string
  onerror :: "fallback option"
  onError :: fallback

text \<open>
  \<^verbatim>\<open>(e) => { e.target.onerror = null; e.target.src = "..." }\<close>, on the target element.
\<close>

definition collage_onError :: "'a img_element_scheme \<Rightarrow> 'a img_element_scheme" where
  "collage_onError target =
     (let target = target\<lparr>onerror := None\<rparr>
      in target\<lparr>src := ''https://placehold.co/300x300/1e293b/94a3b8?text=Image''\<rparr>)"

definition narrative_onError :: "'a img_element_scheme \<Rightarrow> 'a img_element_scheme" where
  "narrative_onError target =
     (let target = target\<lparr>onerror := None\<rparr>
      in target\<lparr>src := ''https://placehold.co/800x600/9ca3af/ffffff?text=Image+Missing''\<rparr>)"

fun run_fallback :: "fallback \<Rightarrow> 'a img_element_scheme \<Rightarrow> 'a img_element_scheme" where
  "run_fallback CollageFallback target = collage_onError target"
| "run_fallback NarrativeFallback target = narrative_onError target"

text \<open>
  The error event of an \<^verbatim>\<open>img\<close> element: React calls the function of the \<^verbatim>\<open>onError\<close> prop;
  the DOM calls the function held by the \<^verbatim>\<open>onerror\<close> property, when there is one.
\<close>

definition error_event :: "'a img_element_scheme \<Rightarrow> 'a img_element_scheme" where
  "error_event el =
     (let el' = run_fallback (onError el) el
      in case onerror el' of None \<Rightarrow> el' | Some h \<Rightarrow> run_fallback h el')"

text \<open>The resource of the \<open>i\<close>-th rendered image fails to load.\<close>

definition image_load_failed ::
    "nat \<Rightarrow> 'a img_element_scheme list \<Rightarrow> 'a img_element_scheme list" where
  "image_load_failed i imgs =
     (if i < length imgs then imgs[i := error_event (imgs ! i)] else imgs)"

text \<open>
  The host loading the \<^verbatim>\<open>src\<close> of an element, where \<open>loads url\<close> tells whether the
  resource at \<open>url\<close> can be loaded: a failed load fires the error event, and the handler's
  assignment to \<^verbatim>\<open>src\<close> starts the next load. The first argument bounds the number of loads
  that are followed; the result counts the runs of the handler.
\<close>

fun load_attempts ::
    "nat \<Rightarrow> (string \<Rightarrow> bool) \<Rightarrow> 'a img_element_scheme \<Rightarrow> nat \<times> 'a img_element_scheme" where
  "load_attempts 0 loads el = (0, el)"
| "load_attempts (Suc n) loads el =
     (if loads (src el) then (0, el)
      else (let (k, el') = load_attempts n loads (error_event el) in (Suc k, el')))"

section \<open>The component \<^verbatim>\<open>NarrativeSection\<close> (lines 92-147)\<close>

record narrative_section =
  section_options :: options
  section_img :: img_element
  isReversed :: bool
  mobileHeightClass :: string
  revealed :: bool

definition NarrativeSection :: "window \<Rightarrow> image \<Rightarrow> nat \<Rightarrow> bool \<Rightarrow> narrative_section" where
  "NarrativeSection window item index inView =
     (let threshold = (if innerWidth window < 768 then 0.1 else 0.3)
      in \<lparr>section_options = \<lparr>threshold = threshold\<rparr>,
          section_img =
            \<lparr>src = imgUrl item,
             img_alt = (if alt item \<noteq> [] then alt item else title item),
             onerror = None, onError = NarrativeFallback\<rparr>,
          isReversed = (index mod 2 \<noteq> 0),
          mobileHeightClass = (if aspect item = portrait then ''h-[60vh]'' else ''h-[40vh]''),
          revealed = inView\<rparr>)"

text \<open>
  The images of \<^verbatim>\<open>items.map((item, index) => <NarrativeSection ... />)\<close> (lines 353-355).
\<close>

fun narrative_imgs :: "window \<Rightarrow> nat \<Rightarrow> image list \<Rightarrow> img_element list" where
  "narrative_imgs window index [] = []"
| "narrative_imgs window index (item # items) =
     section_img (NarrativeSection window item index False) #
     narrative_imgs window (Suc index) items"

section \<open>The component \<^verbatim>\<open>DynamicCollageBackground\<close> (lines 152-203)\<close>

text \<open>
  A value of \<^verbatim>\<open>Math.random()\<close>: a number in \<open>[0, 1)\<close>. The random source is the sequence
  of the values its successive calls return; the functions below thread the number of
  calls made so far.
\<close>

typedef draw = "{r::real. 0 \<le> r \<and> r < 1}"
  by (rule exI [of _ 0]) simp

type_synonym rng = "nat \<Rightarrow> draw"

definition Math_random :: "rng \<Rightarrow> nat \<Rightarrow> real" where
  "Math_random rnd c = Rep_draw (rnd c)"

text \<open>The decimal numeral of a natural number, as a template literal prints it.\<close>

definition digits :: string where
  "digits = ''0123456789''"

function show_nat :: "nat \<Rightarrow> string" where
  "show_nat n = (if n < 10 then [digits ! n] else show_nat (n div 10) @ [digits ! (n mod 10)])"
  by pat_completeness auto
termination
  by (relation "measure id") auto

declare show_nat.simps [simp del]

text \<open>An element of \<^verbatim>\<open>denseCollageImages\<close>: \<^verbatim>\<open>{ ...img, uniqueKey: ... }\<close>.\<close>

record keyed_image = image +
  uniqueKey :: string

definition with_key :: "image \<Rightarrow> string \<Rightarrow> keyed_image" where
  "with_key img k = image.extend img (keyed_image.fields k)"

definition duplicationFactor :: nat where
  "duplicationFactor = 4"

text \<open>
  The template literal \<^verbatim>\<open>`${img.filename}-${i}-${Math.random()}`\<close>, for the file name,
  the index and the draw. The conversion of a draw to a string is the host's: it is the
  parameter \<open>str\<close>.
\<close>

definition uniqueKey_template ::
    "(draw \<Rightarrow> string) \<Rightarrow> string \<Rightarrow> nat \<Rightarrow> draw \<Rightarrow> string" where
  "uniqueKey_template str f i r = f @ ''-'' @ show_nat i @ ''-'' @ str r"

text \<open>
  \<^verbatim>\<open>images.map(img => ({ ...img, uniqueKey: ... }))\<close> for one \<open>i\<close>.
\<close>

fun keyed_row ::
    "(draw \<Rightarrow> string) \<Rightarrow> rng \<Rightarrow> nat \<Rightarrow> nat \<Rightarrow> image list \<Rightarrow> keyed_image list \<times> nat" where
  "keyed_row str rnd c i [] = ([], c)"
| "keyed_row str rnd c i (img # imgs) =
     (let item = with_key img (uniqueKey_template str (filename img) i (rnd c));
          (rest, c') = keyed_row str rnd (Suc c) i imgs
      in (item # rest, c'))"

text \<open>
  \<^verbatim>\<open>Array.from({ length: duplicationFactor }, (_, i) => ...)\<close>: the rows for \<open>i\<close>,
  \<open>i + 1\<close>, ..., \<open>m\<close> of them.
\<close>

fun array_from ::
    "(draw \<Rightarrow> string) \<Rightarrow> rng \<Rightarrow> nat \<Rightarrow> nat \<Rightarrow> nat \<Rightarrow> image list \<Rightarrow>
     keyed_image list list \<times> nat" where
  "array_from str rnd c i 0 images = ([], c)"
| "array_from str rnd c i (Suc m) images =
     (let (row, c') = keyed_row str rnd c i images;
          (rest, c'') = array_from str rnd c' (Suc i) m images
      in (row # rest, c''))"

text \<open>
  The loop of lines 161-164, from \<open>i\<close> down to 1:
  \<^verbatim>\<open>j = Math.floor(Math.random() * (i + 1))\<close>, then the two elements are exchanged.
  A draw is below 1, so \<open>j \<le> i\<close>, and both indices are inside the array.
\<close>

fun shuffle :: "rng \<Rightarrow> nat \<Rightarrow> nat \<Rightarrow> 'a list \<Rightarrow> 'a list \<times> nat" where
  "shuffle rnd c 0 xs = (xs, c)"
| "shuffle rnd c (Suc i') xs =
     (let i = Suc i';
          j = nat \<lfloor>Math_random rnd c * real (i + 1)\<rfloor>
      in shuffle rnd (Suc c) i' (xs[i := xs ! j, j := xs ! i]))"

text \<open>Lines 156-164: the expanded and shuffled list, with the number of draws made.\<close>

definition denseCollageImages ::
    "(draw \<Rightarrow> string) \<Rightarrow> rng \<Rightarrow> image list \<Rightarrow> keyed_image list \<times> nat" where
  "denseCollageImages str rnd images =
     (let (rows, c) = array_from str rnd 0 0 duplicationFactor images;
          flat = concat rows
      in shuffle rnd c (length flat - 1) flat)"

text \<open>
  A rendered \<^verbatim>\<open>img\<close> of the collage: its key and the fields of its \<^verbatim>\<open>style\<close>. Widths and
  heights are in \<^verbatim>\<open>vh\<close>, positions in percent, the rotation in degrees, durations in
  seconds.
\<close>

record collage_img = img_element +
  key :: string
  style_width :: real
  style_height :: real
  style_top :: real
  style_left :: real
  style_rotate :: real
  style_opacity :: real
  animation_duration :: real
  style_animationDelay :: real
  style_zIndex :: int

text \<open>
  The body of the \<^verbatim>\<open>map\<close> callback (lines 170-199). The draws are made in the order of the
  source: \<open>x\<close>, \<open>y\<close>, \<open>rotation\<close>, \<open>size\<close>, then the opacity and the z-index inside the
  style object.
\<close>

definition collage_item :: "rng \<Rightarrow> nat \<Rightarrow> nat \<Rightarrow> keyed_image \<Rightarrow> collage_img" where
  "collage_item rnd c index item =
     (let x = Math_random rnd c * 100;
          y = Math_random rnd (c + 1) * 100;
          rotation = Math_random rnd (c + 2) * 60 - 30;
          size = 30 + Math_random rnd (c + 3) * 50
      in \<lparr>src = imgUrl item, img_alt = alt item, onerror = None, onError = CollageFallback,
          key = uniqueKey item,
          style_width = size, style_height = size, style_top = y, style_left = x,
          style_rotate = rotation,
          style_opacity = 0.6 + Math_random rnd (c + 4) * 0.4,
          animation_duration = 30 + real index * 2,
          style_animationDelay = real index * 1.5,
          style_zIndex = \<lfloor>Math_random rnd (c + 5) * 10\<rfloor>\<rparr>)"

fun collage_map :: "rng \<Rightarrow> nat \<Rightarrow> nat \<Rightarrow> keyed_image list \<Rightarrow> collage_img list" where
  "collage_map rnd c index [] = []"
| "collage_map rnd c index (item # items) =
     collage_item rnd c index item # collage_map rnd (c + 6) (Suc index) items"

definition DynamicCollageBackground ::
    "(draw \<Rightarrow> string) \<Rightarrow> rng \<Rightarrow> image list \<Rightarrow> collage_img list" where
  "DynamicCollageBackground str rnd images =
     (let (dense, c) = denseCollageImages str rnd images
      in collage_map rnd c 0 dense)"

text \<open>
  What the keys need of the host's conversion of draws to strings: the numeral of no
  draw ends with a hyphen followed by the numeral of a draw. The numerals of JavaScript
  for the numbers in \<open>[0, 1)\<close> are of this kind: a hyphen occurs only in an exponent, and
  the digits after it are not the numeral of such a number.
\<close>

definition key_safe :: "(draw \<Rightarrow> string) \<Rightarrow> bool" where
  "key_safe str = (\<forall>r r' y. str r \<noteq> y @ ''-'' @ str r')"

section \<open>The component \<^verbatim>\<open>App\<close>: the scroll indicator (lines 207-224)\<close>

text \<open>
  \<^verbatim>\<open>handleScroll\<close>, on the state \<^verbatim>\<open>showScrollIndicator\<close>; \<open>None\<close> stands for a \<^verbatim>\<open>window\<close>
  that is \<^verbatim>\<open>undefined\<close>.
\<close>

definition handleScroll :: "window option \<Rightarrow> bool \<Rightarrow> bool" where
  "handleScroll window showScrollIndicator =
     (if window \<noteq> None \<and> scrollY (the window) > 100 then False
      else if window \<noteq> None \<and> scrollY (the window) \<le> 100 then True
      else showScrollIndicator)"

text \<open>
  The listeners of the scroll event of \<^verbatim>\<open>window\<close>. \<^verbatim>\<open>addEventListener\<close> does not add a
  listener that is registered already; \<^verbatim>\<open>removeEventListener\<close> removes it.
\<close>

datatype listener = HandleScroll | OtherListener nat

definition addEventListener :: "listener \<Rightarrow> listener list \<Rightarrow> listener list" where
  "addEventListener l ls = (if l \<in> set ls then ls else ls @ [l])"

definition removeEventListener :: "listener \<Rightarrow> listener list \<Rightarrow> listener list" where
  "removeEventListener l ls = remove1 l ls"

record page =
  showScrollIndicator :: bool
  scroll_listeners :: "listener list"

text \<open>
  \<^verbatim>\<open>useState(true)\<close> and the effect of lines 220-224. Its dependency \<^verbatim>\<open>handleScroll\<close> is the
  same function at every render (\<^verbatim>\<open>useCallback\<close> with no dependencies), so the effect runs
  when the page is mounted and its cleanup when the page is unmounted.
\<close>

definition App_initial :: "listener list \<Rightarrow> page" where
  "App_initial ls = \<lparr>showScrollIndicator = True, scroll_listeners = ls\<rparr>"

definition App_mount :: "page \<Rightarrow> page" where
  "App_mount p = p\<lparr>scroll_listeners := addEventListener HandleScroll (scroll_listeners p)\<rparr>"

definition App_unmount :: "page \<Rightarrow> page" where
  "App_unmount p = p\<lparr>scroll_listeners := removeEventListener HandleScroll (scroll_listeners p)\<rparr>"

text \<open>A scroll event of the window: every registered \<^verbatim>\<open>handleScroll\<close> listener runs.\<close>

definition scroll_event :: "window \<Rightarrow> page \<Rightarrow> page" where
  "scroll_event window p =
     (if HandleScroll \<in> set (scroll_listeners p)
      then p\<lparr>showScrollIndicator := handleScroll (Some window) (showScrollIndicator p)\<rparr>
      else p)"

section \<open>Properties of the tracker\<close>

lemma deliver_qualifying: "qualifying entries \<Longrightarrow> deliver opts v entries"
  by (cases entries) (simp_all add: deliver_def)

lemma deliver_keeps_true: "v \<Longrightarrow> deliver opts v entries"
  by (cases entries) (simp_all add: deliver_def)

lemma deliver_not_qualifying: "\<not> qualifying entries \<Longrightarrow> deliver opts v entries = v"
  by (cases entries) (simp_all add: deliver_def)

lemma deliver_all_keeps_true: "v \<Longrightarrow> deliver_all opts v ns"
  by (induction ns arbitrary: v) (simp_all add: deliver_keeps_true)

lemma deliver_all_append:
  "deliver_all opts v (ns @ ms) = deliver_all opts (deliver_all opts v ns) ms"
  by (induction ns arbitrary: v) simp_all

lemma deliver_all_qualifying:
  "\<exists>n \<in> set ns. qualifying n \<Longrightarrow> deliver_all opts v ns"
proof (induction ns arbitrary: v)
  case Nil
  then show ?case by simp
next
  case (Cons n ns)
  show ?case
  proof (cases "qualifying n")
    case True
    then have "deliver opts v n" by (rule deliver_qualifying)
    then show ?thesis by (simp add: deliver_all_keeps_true)
  next
    case False
    with Cons.prems have "\<exists>m \<in> set ns. qualifying m" by auto
    then show ?thesis using Cons.IH by simp
  qed
qed


section \<open>Properties of the collage\<close>

lemma with_key_simps [simp]:
  "image.truncate (with_key img k) = img"
  "uniqueKey (with_key img k) = k"
  "filename (with_key img k) = filename img"
  "imgUrl (with_key img k) = imgUrl img"
  "alt (with_key img k) = alt img"
  by (simp_all add: with_key_def image.truncate_def image.extend_def keyed_image.fields_def)

lemma Math_random_range: "0 \<le> Math_random rnd c" "Math_random rnd c < 1"
  using Rep_draw [of "rnd c"] by (simp_all add: Math_random_def)

lemma show_nat_digit: "n < 10 \<Longrightarrow> show_nat n = [digits ! n]"
  by (simp add: show_nat.simps)

lemma digits_inj: "i < 10 \<Longrightarrow> j < 10 \<Longrightarrow> digits ! i = digits ! j \<Longrightarrow> i = j"
proof -
  have "distinct digits" by (simp add: digits_def)
  moreover have "length digits = 10" by (simp add: digits_def)
  ultimately show "i < 10 \<Longrightarrow> j < 10 \<Longrightarrow> digits ! i = digits ! j \<Longrightarrow> i = j"
    by (simp add: nth_eq_iff_index_eq)
qed

lemma key_suffix:
  assumes safe: "key_safe str"
    and eq: "a @ ''-'' @ str r = a' @ ''-'' @ str r'"
  shows "a = a' \<and> str r = str r'"
proof -
  from eq have "(a @ ''-'') @ str r = (a' @ ''-'') @ str r'" by simp
  then obtain us where us: "(a @ ''-'' = (a' @ ''-'') @ us \<and> us @ str r = str r') \<or>
      ((a @ ''-'') @ us = a' @ ''-'' \<and> str r = us @ str r')"
    using append_eq_append_conv2 [THEN iffD1] by blast
  have False if "us \<noteq> []" "b @ ''-'' = (b' @ ''-'') @ us" "us @ s = s'"
      "\<forall>y. s' \<noteq> y @ ''-'' @ s" for b b' s s' :: string
  proof -
    from that(1) obtain vs v where "us = vs @ [v]" by (metis rev_exhaust)
    with that(2) have "v = CHR ''-''" by simp
    with \<open>us = vs @ [v]\<close> that(3) have "s' = vs @ ''-'' @ s" by simp
    with that(4) show False by blast
  qed
  note no = this
  from us show ?thesis
  proof
    assume A: "a @ ''-'' = (a' @ ''-'') @ us \<and> us @ str r = str r'"
    have "us = []"
    proof (rule ccontr)
      assume "us \<noteq> []"
      from no [OF this conjunct1 [OF A] conjunct2 [OF A]] safe show False
        by (simp add: key_safe_def)
    qed
    with A show ?thesis by simp
  next
    assume A: "(a @ ''-'') @ us = a' @ ''-'' \<and> str r = us @ str r'"
    have "us = []"
    proof (rule ccontr)
      assume "us \<noteq> []"
      from no [OF this conjunct1 [OF A, symmetric] conjunct2 [OF A, symmetric]] safe show False
        by (simp add: key_safe_def)
    qed
    with A show ?thesis by simp
  qed
qed

lemma uniqueKey_template_inj:
  assumes "key_safe str" "i < 10" "i' < 10"
    and "uniqueKey_template str f i r = uniqueKey_template str f' i' r'"
  shows "f = f' \<and> i = i'"
proof -
  from assms(4) have "(f @ ''-'' @ show_nat i) @ ''-'' @ str r = (f' @ ''-'' @ show_nat i') @ ''-'' @ str r'"
    by (simp add: uniqueKey_template_def)
  from key_suffix [OF assms(1) this]
  have "f @ ''-'' @ show_nat i = f' @ ''-'' @ show_nat i'" by simp
  with assms(2,3) have "(f @ ''-'') @ [digits ! i] = (f' @ ''-'') @ [digits ! i']"
    by (simp add: show_nat_digit)
  then have "f @ ''-'' = f' @ ''-''" "digits ! i = digits ! i'"
    by (simp_all only: append1_eq_conv)
  with assms(2,3) show ?thesis by (simp add: digits_inj)
qed


lemma keyed_row_counter: "snd (keyed_row str rnd c i imgs) = c + length imgs"
  by (induction imgs arbitrary: c) (simp_all add: Let_def case_prod_unfold)

lemma keyed_row_truncate: "map image.truncate (fst (keyed_row str rnd c i imgs)) = imgs"
  by (induction imgs arbitrary: c) (simp_all add: Let_def case_prod_unfold)

lemma keyed_row_keys:
  "k \<in> set (map uniqueKey (fst (keyed_row str rnd c i imgs))) \<Longrightarrow>
     \<exists>f r. f \<in> set (map filename imgs) \<and> k = uniqueKey_template str f i r"
proof (induction imgs arbitrary: c)
  case Nil
  then show ?case by simp
next
  case (Cons img imgs)
  from Cons.prems have "k = uniqueKey_template str (filename img) i (rnd c) \<or>
      k \<in> set (map uniqueKey (fst (keyed_row str rnd (Suc c) i imgs)))"
    by (simp add: Let_def case_prod_unfold uniqueKey_template_def)
  then show ?case
  proof
    assume "k = uniqueKey_template str (filename img) i (rnd c)"
    then show ?thesis by auto
  next
    assume "k \<in> set (map uniqueKey (fst (keyed_row str rnd (Suc c) i imgs)))"
    from Cons.IH [OF this] show ?thesis by auto
  qed
qed

lemma keyed_row_distinct:
  assumes "key_safe str" "i < 10"
  shows "distinct (map filename imgs) \<Longrightarrow>
     distinct (map uniqueKey (fst (keyed_row str rnd c i imgs)))"
proof (induction imgs arbitrary: c)
  case Nil
  then show ?case by simp
next
  case (Cons img imgs)
  let ?k = "uniqueKey_template str (filename img) i (rnd c)"
  have "?k \<notin> set (map uniqueKey (fst (keyed_row str rnd (Suc c) i imgs)))"
  proof
    assume "?k \<in> set (map uniqueKey (fst (keyed_row str rnd (Suc c) i imgs)))"
    from keyed_row_keys [OF this] obtain f r
      where f: "f \<in> set (map filename imgs)" and "?k = uniqueKey_template str f i r" by blast
    from uniqueKey_template_inj [OF assms(1) assms(2) assms(2) this(2)] have "filename img = f" by simp
    with f Cons.prems show False by simp
  qed
  moreover from Cons have "distinct (map uniqueKey (fst (keyed_row str rnd (Suc c) i imgs)))"
    by simp
  ultimately show ?case
    by (simp add: Let_def case_prod_unfold uniqueKey_template_def)
qed

lemma array_from_counter:
  "snd (array_from str rnd c i m images) = c + m * length images"
  by (induction m arbitrary: c i) (simp_all add: Let_def case_prod_unfold keyed_row_counter)

lemma array_from_truncate:
  "map (map image.truncate) (fst (array_from str rnd c i m images)) = replicate m images"
  by (induction m arbitrary: c i) (simp_all add: Let_def case_prod_unfold keyed_row_truncate)

lemma array_from_keys:
  "k \<in> set (map uniqueKey (concat (fst (array_from str rnd c i m images)))) \<Longrightarrow>
     \<exists>f i' r. f \<in> set (map filename images) \<and> i \<le> i' \<and> i' < i + m \<and> k = uniqueKey_template str f i' r"
proof (induction m arbitrary: c i)
  case 0
  then show ?case by simp
next
  case (Suc m)
  let ?row = "fst (keyed_row str rnd c i images)"
  let ?c' = "snd (keyed_row str rnd c i images)"
  from Suc.prems have "k \<in> set (map uniqueKey ?row) \<or>
      k \<in> set (map uniqueKey (concat (fst (array_from str rnd ?c' (Suc i) m images))))"
    by (auto simp: Let_def case_prod_unfold)
  then show ?case
  proof
    assume "k \<in> set (map uniqueKey ?row)"
    from keyed_row_keys [OF this] obtain f r
      where "f \<in> set (map filename images)" "k = uniqueKey_template str f i r" by blast
    then show ?thesis by (intro exI [of _ f] exI [of _ i] exI [of _ r]) simp
  next
    assume "k \<in> set (map uniqueKey (concat (fst (array_from str rnd ?c' (Suc i) m images))))"
    from Suc.IH [OF this] obtain f i' r
      where "f \<in> set (map filename images)" "Suc i \<le> i'" "i' < Suc i + m" "k = uniqueKey_template str f i' r"
      by blast
    then show ?thesis by (intro exI [of _ f] exI [of _ i'] exI [of _ r]) simp
  qed
qed

lemma array_from_distinct:
  assumes safe: "key_safe str" and files: "distinct (map filename images)"
  shows "i + m \<le> 10 \<Longrightarrow>
     distinct (map uniqueKey (concat (fst (array_from str rnd c i m images))))"
proof (induction m arbitrary: c i)
  case 0
  then show ?case by simp
next
  case (Suc m)
  let ?row = "fst (keyed_row str rnd c i images)"
  let ?c' = "snd (keyed_row str rnd c i images)"
  let ?rest = "concat (fst (array_from str rnd ?c' (Suc i) m images))"
  from Suc.prems have i: "i < 10" by simp
  have row: "distinct (map uniqueKey ?row)"
    by (rule keyed_row_distinct [OF safe i files])
  from Suc have rest: "distinct (map uniqueKey ?rest)" by simp
  have disj: "set (map uniqueKey ?row) \<inter> set (map uniqueKey ?rest) = {}"
  proof (rule ccontr)
    assume "set (map uniqueKey ?row) \<inter> set (map uniqueKey ?rest) \<noteq> {}"
    then obtain k where k1: "k \<in> set (map uniqueKey ?row)" and k2: "k \<in> set (map uniqueKey ?rest)"
      by blast
    from keyed_row_keys [OF k1] obtain f r where a: "k = uniqueKey_template str f i r" by blast
    from array_from_keys [OF k2] obtain f' i' r'
      where b: "Suc i \<le> i'" "i' < Suc i + m" "k = uniqueKey_template str f' i' r'" by blast
    from b(2) Suc.prems have "i' < 10" by simp
    from a b(3) have "uniqueKey_template str f i r = uniqueKey_template str f' i' r'" by simp
    from uniqueKey_template_inj [OF safe i \<open>i' < 10\<close> this] have "i = i'" by simp
    with b(1) show False by simp
  qed
  have "map uniqueKey (concat (fst (array_from str rnd c i (Suc m) images))) =
      map uniqueKey ?row @ map uniqueKey ?rest"
    by (simp add: Let_def case_prod_unfold)
  with row rest disj show ?case by (simp only: distinct_append)
qed

lemma floor_index: "0 \<le> r \<Longrightarrow> r < 1 \<Longrightarrow> nat \<lfloor>r * real (Suc n)\<rfloor> \<le> n"
proof -
  assume r: "0 \<le> r" "r < 1"
  then have "r * real (Suc n) < real (Suc n)" by simp
  then have "\<lfloor>r * real (Suc n)\<rfloor> < int (Suc n)" by (simp add: floor_less_iff)
  then show ?thesis by simp
qed

lemma shuffle_mset: "i < length xs \<Longrightarrow> mset (fst (shuffle rnd c i xs)) = mset xs"
proof (induction i arbitrary: c xs)
  case 0
  then show ?case by simp
next
  case (Suc i)
  let ?j = "nat \<lfloor>Math_random rnd c * real (Suc i + 1)\<rfloor>"
  have "?j \<le> Suc i" using floor_index [OF Math_random_range, of rnd c "Suc i"] by simp
  with Suc.prems have j: "?j < length xs" by simp
  let ?ys = "xs[Suc i := xs ! ?j, ?j := xs ! Suc i]"
  have "mset ?ys = mset xs" by (rule mset_swap [OF j Suc.prems])
  moreover have "i < length ?ys" using Suc.prems by simp
  ultimately show ?case using Suc.IH [of ?ys "Suc c"] by (simp add: Let_def)
qed

lemma shuffle_counter: "snd (shuffle rnd c i xs) = c + i"
  by (induction i arbitrary: c xs) (simp_all add: Let_def)

lemma shuffle_all_mset: "mset (fst (shuffle rnd c (length xs - 1) xs)) = mset xs"
  by (cases xs) (simp_all add: shuffle_mset)


lemma collage_map_length: "length (collage_map rnd c index items) = length items"
  by (induction items arbitrary: c index) simp_all

lemma collage_map_nth:
  "i < length items \<Longrightarrow>
     collage_map rnd c index items ! i = collage_item rnd (c + 6 * i) (index + i) (items ! i)"
proof (induction items arbitrary: c index i)
  case Nil
  then show ?case by simp
next
  case (Cons item items)
  show ?case
  proof (cases i)
    case 0
    then show ?thesis by simp
  next
    case (Suc i')
    with Cons.prems have "i' < length items" by simp
    from Cons.IH [OF this, of "c + 6" "Suc index"] Suc show ?thesis
      by (simp add: algebra_simps)
  qed
qed

lemma collage_map_key: "map key (collage_map rnd c index items) = map uniqueKey items"
  by (induction items arbitrary: c index) (simp_all add: collage_item_def Let_def)

lemma collage_map_src: "map src (collage_map rnd c index items) = map imgUrl items"
  by (induction items arbitrary: c index) (simp_all add: collage_item_def Let_def)

lemma dense_truncate:
  "mset (map image.truncate (fst (denseCollageImages str rnd images))) =
     mset (concat (replicate duplicationFactor images))"
proof -
  let ?rows = "fst (array_from str rnd 0 0 duplicationFactor images)"
  let ?c = "snd (array_from str rnd 0 0 duplicationFactor images)"
  have "fst (denseCollageImages str rnd images) =
      fst (shuffle rnd ?c (length (concat ?rows) - 1) (concat ?rows))"
    by (simp add: denseCollageImages_def case_prod_unfold Let_def)
  then have "mset (fst (denseCollageImages str rnd images)) = mset (concat ?rows)"
    by (simp only: shuffle_all_mset)
  then have "mset (map image.truncate (fst (denseCollageImages str rnd images))) =
      mset (map image.truncate (concat ?rows))"
    by (metis mset_map)
  also have "map image.truncate (concat ?rows) = concat (map (map image.truncate) ?rows)"
    by (simp add: map_concat)
  also have "\<dots> = concat (replicate duplicationFactor images)"
    by (simp add: array_from_truncate)
  finally show ?thesis .
qed

lemma dense_keys:
  assumes "key_safe str" "distinct (map filename images)"
  shows "distinct (map uniqueKey (fst (denseCollageImages str rnd images)))"
proof -
  let ?rows = "fst (array_from str rnd 0 0 duplicationFactor images)"
  let ?c = "snd (array_from str rnd 0 0 duplicationFactor images)"
  have "fst (denseCollageImages str rnd images) =
      fst (shuffle rnd ?c (length (concat ?rows) - 1) (concat ?rows))"
    by (simp add: denseCollageImages_def case_prod_unfold Let_def)
  then have "mset (fst (denseCollageImages str rnd images)) = mset (concat ?rows)"
    by (simp only: shuffle_all_mset)
  then have "mset (map uniqueKey (fst (denseCollageImages str rnd images))) =
      mset (map uniqueKey (concat ?rows))"
    by (metis mset_map)
  moreover have "distinct (map uniqueKey (concat ?rows))"
    by (rule array_from_distinct [OF assms]) (simp add: duplicationFactor_def)
  ultimately show ?thesis by (metis mset_eq_imp_distinct_iff)
qed

lemma count_concat_replicate:
  "count (mset (concat (replicate m xs))) x = m * count (mset xs) x"
  by (induction m) simp_all

lemma length_concat_replicate: "length (concat (replicate m xs)) = length xs * m"
  by (induction m) simp_all

lemma dense_length:
  "length (fst (denseCollageImages str rnd images)) = length images * duplicationFactor"
proof -
  have "length (fst (denseCollageImages str rnd images)) =
      size (mset (map image.truncate (fst (denseCollageImages str rnd images))))"
    by simp
  also have "\<dots> = length (concat (replicate duplicationFactor images))"
    by (simp only: dense_truncate size_mset)
  also have "\<dots> = length images * duplicationFactor"
    by (rule length_concat_replicate)
  finally show ?thesis .
qed

lemma count_filter_map:
  "length (filter (\<lambda>item. f item = x) xs) = count (mset (map f xs)) x"
  by (induction xs) simp_all

lemma dense_sources:
  assumes "distinct (map filename images)" "img \<in> set images"
  shows "length (filter (\<lambda>item. image.truncate item = img)
           (fst (denseCollageImages str rnd images))) = duplicationFactor"
proof -
  let ?dense = "fst (denseCollageImages str rnd images)"
  from assms(1) have "distinct images" by (simp add: distinct_map)
  with assms(2) have one: "count (mset images) img = 1" by (simp add: distinct_count_atmost_1)
  have "length (filter (\<lambda>item. image.truncate item = img) ?dense) =
      count (mset (map image.truncate ?dense)) img"
    by (rule count_filter_map)
  also have "\<dots> = duplicationFactor * count (mset images) img"
    by (simp only: dense_truncate count_concat_replicate)
  also have "\<dots> = duplicationFactor"
    by (simp only: one mult_1_right)
  finally show ?thesis .
qed

lemma DynamicCollageBackground_eq:
  "DynamicCollageBackground str rnd images =
     collage_map rnd (snd (denseCollageImages str rnd images)) 0
       (fst (denseCollageImages str rnd images))"
  by (simp add: DynamicCollageBackground_def case_prod_unfold Let_def)

lemma collage_item_ranges:
  "0 \<le> style_left (collage_item rnd c index item) \<and>
   style_left (collage_item rnd c index item) \<le> 100 \<and>
   0 \<le> style_top (collage_item rnd c index item) \<and>
   style_top (collage_item rnd c index item) \<le> 100 \<and>
   - 30 \<le> style_rotate (collage_item rnd c index item) \<and>
   style_rotate (collage_item rnd c index item) \<le> 30 \<and>
   30 \<le> style_width (collage_item rnd c index item) \<and>
   style_width (collage_item rnd c index item) \<le> 80 \<and>
   style_height (collage_item rnd c index item) = style_width (collage_item rnd c index item) \<and>
   6 / 10 \<le> style_opacity (collage_item rnd c index item) \<and>
   style_opacity (collage_item rnd c index item) \<le> 1 \<and>
   0 \<le> style_zIndex (collage_item rnd c index item) \<and>
   style_zIndex (collage_item rnd c index item) \<le> 9"
proof -
  have z: "0 \<le> \<lfloor>r * 10\<rfloor> \<and> \<lfloor>r * 10\<rfloor> \<le> 9" if "0 \<le> r" "r < 1" for r :: real
  proof -
    from that have "r * 10 < 10" by simp
    then have "\<lfloor>r * 10\<rfloor> < 10" by (simp add: floor_less_iff)
    moreover from that have "0 \<le> \<lfloor>r * 10\<rfloor>" by simp
    ultimately show ?thesis by simp
  qed
  show ?thesis
    using Math_random_range [of rnd c] Math_random_range [of rnd "c + 1"] Math_random_range [of rnd "c + 2"]
      Math_random_range [of rnd "c + 3"] Math_random_range [of rnd "c + 4"]
      z [OF Math_random_range, of rnd "c + 5"]
    by (simp add: collage_item_def Let_def)
qed

lemma collage_map_member:
  "p \<in> set (collage_map rnd c index items) \<Longrightarrow>
     \<exists>c' index' item. p = collage_item rnd c' index' item"
  by (induction items arbitrary: c index) auto


lemma filename_truncate: "filename (image.truncate item) = filename item"
  by (simp add: image.truncate_def)

lemma dense_filenames:
  assumes "distinct (map filename images)" "img \<in> set images"
  shows "length (filter (\<lambda>item. filename item = filename img)
           (fst (denseCollageImages str rnd images))) = duplicationFactor"
proof -
  let ?dense = "fst (denseCollageImages str rnd images)"
  from assms have one: "count (mset (map filename images)) (filename img) = 1"
    by (simp add: distinct_count_atmost_1)
  have names: "map filename (concat (replicate m images)) =
      concat (replicate m (map filename images))" for m
    by (induction m) simp_all
  have "map filename ?dense = map filename (map image.truncate ?dense)"
    by (simp add: filename_truncate)
  then have "mset (map filename ?dense) = mset (map filename (map image.truncate ?dense))"
    by (rule arg_cong)
  also have "\<dots> = image_mset filename (mset (map image.truncate ?dense))"
    by (simp only: mset_map)
  also have "\<dots> = image_mset filename (mset (concat (replicate duplicationFactor images)))"
    by (rule arg_cong [OF dense_truncate])
  also have "\<dots> = mset (map filename (concat (replicate duplicationFactor images)))"
    by (simp only: mset_map)
  finally have m: "mset (map filename ?dense) =
      mset (concat (replicate duplicationFactor (map filename images)))"
    by (simp only: names)
  have "length (filter (\<lambda>item. filename item = filename img) ?dense) =
      count (mset (map filename ?dense)) (filename img)"
    by (rule count_filter_map)
  also have "\<dots> = duplicationFactor * count (mset (map filename images)) (filename img)"
    by (simp only: m count_concat_replicate)
  also have "\<dots> = duplicationFactor"
    by (simp only: one mult_1_right)
  finally show ?thesis .
qed

lemma DynamicCollageBackground_length:
  "length (DynamicCollageBackground str rnd images) = length images * duplicationFactor"
  by (simp add: DynamicCollageBackground_eq collage_map_length dense_length)

lemma DynamicCollageBackground_nth:
  "i < length (DynamicCollageBackground str rnd images) \<Longrightarrow>
     DynamicCollageBackground str rnd images ! i =
       collage_item rnd (snd (denseCollageImages str rnd images) + 6 * i) i
         (fst (denseCollageImages str rnd images) ! i)"
  by (simp add: DynamicCollageBackground_eq collage_map_length collage_map_nth)

lemma length_collageData: "length collageData = 6"
  by (simp add: collageData_def imageDataMap_def)

lemma collage_item_timing:
  "style_animationDelay (collage_item rnd c index item) = 1.5 * real index"
  "animation_duration (collage_item rnd c index item) = 30 + 2 * real index"
  by (simp_all add: collage_item_def Let_def)

lemma collage_item_handlers:
  "onError (collage_item rnd c index item) = CollageFallback"
  "onerror (collage_item rnd c index item) = None"
  by (simp_all add: collage_item_def Let_def)

lemma error_event_eq: "error_event el = run_fallback (onError el) el"
  by (cases "onError el") (simp_all add: error_event_def collage_onError_def narrative_onError_def)

lemma narrative_imgs_length: "length (narrative_imgs w index items) = length items"
  by (induction items arbitrary: index) simp_all

lemma narrative_imgs_onError:
  "el \<in> set (narrative_imgs w index items) \<Longrightarrow> onError el = NarrativeFallback"
  by (induction items arbitrary: index) (auto simp: NarrativeSection_def)

lemma DynamicCollageBackground_onError:
  "el \<in> set (DynamicCollageBackground str rnd images) \<Longrightarrow> onError el = CollageFallback"
  by (auto simp: DynamicCollageBackground_eq collage_item_handlers dest: collage_map_member)

lemma image_load_failed_length: "length (image_load_failed i imgs) = length imgs"
  by (simp add: image_load_failed_def)

lemma image_load_failed_other:
  "j \<noteq> i \<Longrightarrow> image_load_failed i imgs ! j = imgs ! j"
  by (simp add: image_load_failed_def)

lemma map_update_same: "(map f xs)[i := f (xs ! i)] = map f xs"
  by (simp add: map_update [symmetric])

lemma image_load_failed_more:
  "map img_element.more (image_load_failed i imgs) = map img_element.more imgs"
  by (cases "onError (imgs ! i)")
    (simp_all add: image_load_failed_def error_event_eq collage_onError_def
      narrative_onError_def map_update map_update_same)

lemma image_load_failed_alt:
  "map img_alt (image_load_failed i imgs) = map img_alt imgs"
  by (cases "onError (imgs ! i)")
    (simp_all add: image_load_failed_def error_event_eq collage_onError_def
      narrative_onError_def map_update map_update_same)

lemma image_load_failed_collage:
  "i < length imgs \<Longrightarrow> onError (imgs ! i) = CollageFallback \<Longrightarrow>
     src (image_load_failed i imgs ! i) =
       ''https://placehold.co/300x300/1e293b/94a3b8?text=Image''"
  by (simp add: image_load_failed_def error_event_eq collage_onError_def)

lemma image_load_failed_narrative:
  "i < length imgs \<Longrightarrow> onError (imgs ! i) = NarrativeFallback \<Longrightarrow>
     src (image_load_failed i imgs ! i) =
       ''https://placehold.co/800x600/9ca3af/ffffff?text=Image+Missing''"
  by (simp add: image_load_failed_def error_event_eq narrative_onError_def)

lemma error_event_keeps_listener: "onError (error_event el) = onError el"
  by (cases "onError el") (simp_all add: error_event_eq collage_onError_def narrative_onError_def)

lemma error_event_clears_property: "onerror (error_event el) = None"
  by (cases "onError el") (simp_all add: error_event_eq collage_onError_def narrative_onError_def)

lemma error_event_idempotent: "error_event (error_event el) = error_event el"
  by (cases "onError el") (simp_all add: error_event_eq collage_onError_def narrative_onError_def)

lemma load_attempts_once:
  "\<not> loads (src el) \<Longrightarrow> loads (src (error_event el)) \<Longrightarrow>
     fst (load_attempts (Suc (Suc n)) loads el) = 1"
  by simp

lemma effect_registers_one:
  "subscriptions (run_effect opts (attach_ref el tracker_created)) = [el]"
  by (simp add: subscriptions_def run_effect_def attach_ref_def tracker_created_def
      useInView_effect_def IntersectionObserver_def observe_def)

lemma effect_registers_none:
  "subscriptions (run_effect opts tracker_created) = []"
  by (simp add: subscriptions_def run_effect_def tracker_created_def
      useInView_effect_def IntersectionObserver_def)

lemma cleanup_with_ref_set:
  "subscriptions (run_cleanup (run_effect opts (attach_ref el tracker_created))) = []"
  by (simp add: subscriptions_def run_cleanup_def run_effect_def attach_ref_def
      tracker_created_def useInView_effect_def useInView_cleanup_def
      IntersectionObserver_def observe_def unobserve_def)


section \<open>The claims\<close>

text \<open>
  C1, with the input where the code departs from it. A true output stays true under
  every notification and every sequence of notifications, and a notification whose first
  entry is intersecting makes the output true, wherever it comes in the sequence and
  whatever follows it, for every options object (so every threshold). But the callback
  takes the first entry of the array alone (line 67). A notification that carries two
  entries of the element, the older one not intersecting and the newer one intersecting
  with the whole element in view, reports the element as visible at every threshold, and
  leaves the output false.
\<close>

theorem useInView_misses_later_entry:
  "deliver opts True entries \<and>
   deliver_all opts True ms \<and>
   deliver_all opts v
     (ns @ (\<lparr>isIntersecting = True, intersectionRatio = r\<rparr> # rest) # ms) \<and>
   (\<exists>entry \<in> set [\<lparr>isIntersecting = False, intersectionRatio = 0\<rparr>,
                    \<lparr>isIntersecting = True, intersectionRatio = 1\<rparr>].
      isIntersecting entry \<and> intersectionRatio entry = 1) \<and>
   \<not> deliver_all opts (useInView_initial opts)
       [[\<lparr>isIntersecting = False, intersectionRatio = 0\<rparr>,
         \<lparr>isIntersecting = True, intersectionRatio = 1\<rparr>]]"
proof -
  have "deliver opts v' (\<lparr>isIntersecting = True, intersectionRatio = r\<rparr> # rest)" for v'
    by (simp add: deliver_def)
  then have "deliver_all opts v
      (ns @ (\<lparr>isIntersecting = True, intersectionRatio = r\<rparr> # rest) # ms)"
    by (simp add: deliver_all_append deliver_all_keeps_true)
  moreover have "\<not> deliver_all opts (useInView_initial opts)
       [[\<lparr>isIntersecting = False, intersectionRatio = 0\<rparr>,
         \<lparr>isIntersecting = True, intersectionRatio = 1\<rparr>]]"
    by (simp add: deliver_def useInView_initial_def)
  ultimately show ?thesis
    by (simp add: deliver_keeps_true deliver_all_keeps_true)
qed

text \<open>
  C2. For image records with pairwise distinct file names, and a conversion of draws
  to strings that is \<open>key_safe\<close>: the duplication factor is 4, the collage has four
  times as many images as there are records, the keys of the images are pairwise
  distinct, the keys and the sources of the images are those of the shuffled list, and
  every record is the source of exactly four entries of that list (so is every file
  name). For the two records \<^verbatim>\<open>a.png\<close> and \<^verbatim>\<open>b.png\<close> this gives eight images, four of each.
\<close>

theorem collage_count_and_keys:
  assumes "distinct (map filename images)" and "key_safe str"
  shows "duplicationFactor = 4 \<and>
    length (DynamicCollageBackground str rnd images) = length images * 4 \<and>
    distinct (map key (DynamicCollageBackground str rnd images)) \<and>
    map key (DynamicCollageBackground str rnd images) =
      map uniqueKey (fst (denseCollageImages str rnd images)) \<and>
    map src (DynamicCollageBackground str rnd images) =
      map imgUrl (fst (denseCollageImages str rnd images)) \<and>
    (\<forall>img \<in> set images.
       length (filter (\<lambda>item. image.truncate item = img)
         (fst (denseCollageImages str rnd images))) = 4 \<and>
       length (filter (\<lambda>item. filename item = filename img)
         (fst (denseCollageImages str rnd images))) = 4)"
proof -
  have k: "duplicationFactor = 4" by (simp add: duplicationFactor_def)
  have "length (DynamicCollageBackground str rnd images) = length images * 4"
    by (simp add: DynamicCollageBackground_length k)
  moreover have "distinct (map key (DynamicCollageBackground str rnd images))"
    by (simp add: DynamicCollageBackground_eq collage_map_key dense_keys [OF assms(2,1)])
  moreover have "\<forall>img \<in> set images.
       length (filter (\<lambda>item. image.truncate item = img)
         (fst (denseCollageImages str rnd images))) = 4 \<and>
       length (filter (\<lambda>item. filename item = filename img)
         (fst (denseCollageImages str rnd images))) = 4"
    using dense_sources [OF assms(1)] dense_filenames [OF assms(1)] k by simp
  ultimately show ?thesis
    by (simp add: k DynamicCollageBackground_eq collage_map_key collage_map_src)
qed

theorem collage_count_and_keys_witness:
  "distinct (map filename
     [\<lparr>filename = ''a.png'', title = [], description = [], aspect = square, alt = [],
       imgUrl = ''/images/a.png''\<rparr>,
      \<lparr>filename = ''b.png'', title = [], description = [], aspect = square, alt = [],
       imgUrl = ''/images/b.png''\<rparr>]) \<and>
   key_safe (\<lambda>r. ''0.5'') \<and>
   length (DynamicCollageBackground (\<lambda>r. ''0.5'') (\<lambda>n. Abs_draw (1 / 2))
     [\<lparr>filename = ''a.png'', title = [], description = [], aspect = square, alt = [],
       imgUrl = ''/images/a.png''\<rparr>,
      \<lparr>filename = ''b.png'', title = [], description = [], aspect = square, alt = [],
       imgUrl = ''/images/b.png''\<rparr>]) = 8 \<and>
   length (filter (\<lambda>item. filename item = ''a.png'')
     (fst (denseCollageImages (\<lambda>r. ''0.5'') (\<lambda>n. Abs_draw (1 / 2))
       [\<lparr>filename = ''a.png'', title = [], description = [], aspect = square, alt = [],
         imgUrl = ''/images/a.png''\<rparr>,
        \<lparr>filename = ''b.png'', title = [], description = [], aspect = square, alt = [],
         imgUrl = ''/images/b.png''\<rparr>]))) = 4 \<and>
   length (filter (\<lambda>item. filename item = ''b.png'')
     (fst (denseCollageImages (\<lambda>r. ''0.5'') (\<lambda>n. Abs_draw (1 / 2))
       [\<lparr>filename = ''a.png'', title = [], description = [], aspect = square, alt = [],
         imgUrl = ''/images/a.png''\<rparr>,
        \<lparr>filename = ''b.png'', title = [], description = [], aspect = square, alt = [],
         imgUrl = ''/images/b.png''\<rparr>]))) = 4"
proof -
  let ?images = "[\<lparr>filename = ''a.png'', title = [], description = [], aspect = square,
      alt = [], imgUrl = ''/images/a.png''\<rparr>,
    \<lparr>filename = ''b.png'', title = [], description = [], aspect = square, alt = [],
      imgUrl = ''/images/b.png''\<rparr>]"
  have d: "distinct (map filename ?images)" by simp
  have "''0.5'' \<noteq> y @ ''-'' @ ''0.5''" for y :: string
    by (auto dest: arg_cong [where f = length])
  then have s: "key_safe (\<lambda>r. ''0.5'')" by (simp add: key_safe_def)
  from collage_count_and_keys [OF d s, of "\<lambda>n. Abs_draw (1 / 2)"] d s show ?thesis
    by simp
qed

text \<open>
  C3. For every image list, conversion and random source (a draw is in \<open>[0, 1)\<close> by its
  type), every image of the collage has its left and top positions in \<open>[0, 100]\<close>, its
  rotation in \<open>[-30, 30]\<close>, its width, which is also its height, in \<open>[30, 80]\<close>, its
  opacity in \<open>[0.6, 1]\<close>, and an integer z-index in \<open>[0, 9]\<close>.
\<close>

theorem collage_ranges:
  "\<forall>p \<in> set (DynamicCollageBackground str rnd images).
     0 \<le> style_left p \<and> style_left p \<le> 100 \<and>
     0 \<le> style_top p \<and> style_top p \<le> 100 \<and>
     - 30 \<le> style_rotate p \<and> style_rotate p \<le> 30 \<and>
     30 \<le> style_width p \<and> style_width p \<le> 80 \<and>
     style_height p = style_width p \<and>
     6 / 10 \<le> style_opacity p \<and> style_opacity p \<le> 1 \<and>
     0 \<le> style_zIndex p \<and> style_zIndex p \<le> 9"
proof
  fix p
  assume "p \<in> set (DynamicCollageBackground str rnd images)"
  then obtain c index item where "p = collage_item rnd c index item"
    unfolding DynamicCollageBackground_eq by (blast dest: collage_map_member)
  then show "0 \<le> style_left p \<and> style_left p \<le> 100 \<and>
     0 \<le> style_top p \<and> style_top p \<le> 100 \<and>
     - 30 \<le> style_rotate p \<and> style_rotate p \<le> 30 \<and>
     30 \<le> style_width p \<and> style_width p \<le> 80 \<and>
     style_height p = style_width p \<and>
     6 / 10 \<le> style_opacity p \<and> style_opacity p \<le> 1 \<and>
     0 \<le> style_zIndex p \<and> style_zIndex p \<le> 9"
    by (simp only: collage_item_ranges)
qed

theorem collage_ranges_witness:
  "(let p = hd (DynamicCollageBackground (\<lambda>r. ''0.5'') (\<lambda>n. Abs_draw (1 / 2)) collageData)
    in p \<in> set (DynamicCollageBackground (\<lambda>r. ''0.5'') (\<lambda>n. Abs_draw (1 / 2)) collageData) \<and>
       0 \<le> style_left p \<and> style_left p \<le> 100 \<and>
       0 \<le> style_top p \<and> style_top p \<le> 100 \<and>
       - 30 \<le> style_rotate p \<and> style_rotate p \<le> 30 \<and>
       30 \<le> style_width p \<and> style_width p \<le> 80 \<and>
       style_height p = style_width p \<and>
       6 / 10 \<le> style_opacity p \<and> style_opacity p \<le> 1 \<and>
       0 \<le> style_zIndex p \<and> style_zIndex p \<le> 9)"
proof -
  let ?out = "DynamicCollageBackground (\<lambda>r. ''0.5'') (\<lambda>n. Abs_draw (1 / 2)) collageData"
  have "length ?out = 24"
    by (simp add: DynamicCollageBackground_length length_collageData duplicationFactor_def)
  then have "?out \<noteq> []" by auto
  then have "hd ?out \<in> set ?out" by (rule hd_in_set)
  with collage_ranges [of "\<lambda>r. ''0.5''" "\<lambda>n. Abs_draw (1 / 2)" collageData]
  show ?thesis by (simp only: Let_def)
qed

text \<open>
  C4. The output is false at creation, and a sequence of notifications none of which
  is intersecting leaves it false, whatever the length of the sequence.
\<close>

theorem useInView_stays_false:
  "\<not> useInView_initial opts \<and>
   ((\<forall>n \<in> set ns. \<not> qualifying n) \<longrightarrow> \<not> deliver_all opts (useInView_initial opts) ns)"
proof -
  have "(\<forall>n \<in> set ns. \<not> qualifying n) \<Longrightarrow> deliver_all opts v ns = v" for v
    by (induction ns arbitrary: v) (simp_all add: deliver_not_qualifying)
  then show ?thesis by (auto simp: useInView_initial_def)
qed

theorem useInView_stays_false_witness:
  "\<not> qualifying [\<lparr>isIntersecting = False, intersectionRatio = 0\<rparr>] \<and>
   \<not> qualifying [\<lparr>isIntersecting = False, intersectionRatio = 1/5\<rparr>] \<and>
   \<not> deliver_all \<lparr>threshold = 3/10\<rparr> (useInView_initial \<lparr>threshold = 3/10\<rparr>)
       [[\<lparr>isIntersecting = False, intersectionRatio = 0\<rparr>],
        [\<lparr>isIntersecting = False, intersectionRatio = 1/5\<rparr>]]"
  using useInView_stays_false [of "\<lparr>threshold = 3/10\<rparr>"
      "[[\<lparr>isIntersecting = False, intersectionRatio = 0\<rparr>],
        [\<lparr>isIntersecting = False, intersectionRatio = 1/5\<rparr>]]"]
  by (simp add: deliver_def useInView_initial_def)

text \<open>
  C5, with the input where the code departs from it. The effect registers exactly one
  subscription when the reference is set and none when it is unset, and a cleanup that
  runs while the reference is still set removes the subscription. When the element is
  destroyed, the reference is detached before the cleanup runs: the test of line 80
  fails, \<^verbatim>\<open>unobserve\<close> is not called, and the subscription is still there after the
  destruction.
\<close>

theorem useInView_unmount_keeps_subscription:
  "subscriptions (mount opts el) = [el] \<and>
   subscriptions (run_effect opts tracker_created) = [] \<and>
   subscriptions (run_cleanup (mount opts el)) = [] \<and>
   subscriptions (unmount (mount opts el)) = [el]"
  by (simp add: subscriptions_def mount_def unmount_def run_cleanup_def detach_ref_def
      run_effect_def attach_ref_def tracker_created_def useInView_effect_def
      useInView_cleanup_def IntersectionObserver_def observe_def unobserve_def)

text \<open>
  C6. When the resource of an image of the collage fails to load, the source of that
  image becomes the placeholder of the collage; the list of images keeps its length,
  the key and the style of every image (its own too) and every alternative text stay as
  they were, and every other image is unchanged. The same holds for the images of the
  narrative sections, with the placeholder of the sections.
\<close>

theorem image_fallback_local:
  "(\<forall>i < length (DynamicCollageBackground str rnd images).
      src (image_load_failed i (DynamicCollageBackground str rnd images) ! i) =
        ''https://placehold.co/300x300/1e293b/94a3b8?text=Image'' \<and>
      length (image_load_failed i (DynamicCollageBackground str rnd images)) =
        length (DynamicCollageBackground str rnd images) \<and>
      map img_element.more (image_load_failed i (DynamicCollageBackground str rnd images)) =
        map img_element.more (DynamicCollageBackground str rnd images) \<and>
      map img_alt (image_load_failed i (DynamicCollageBackground str rnd images)) =
        map img_alt (DynamicCollageBackground str rnd images) \<and>
      (\<forall>j. j \<noteq> i \<longrightarrow>
         image_load_failed i (DynamicCollageBackground str rnd images) ! j =
         DynamicCollageBackground str rnd images ! j)) \<and>
   (\<forall>i < length (narrative_imgs w 0 items).
      src (image_load_failed i (narrative_imgs w 0 items) ! i) =
        ''https://placehold.co/800x600/9ca3af/ffffff?text=Image+Missing'' \<and>
      length (image_load_failed i (narrative_imgs w 0 items)) =
        length (narrative_imgs w 0 items) \<and>
      map img_alt (image_load_failed i (narrative_imgs w 0 items)) =
        map img_alt (narrative_imgs w 0 items) \<and>
      (\<forall>j. j \<noteq> i \<longrightarrow>
         image_load_failed i (narrative_imgs w 0 items) ! j = narrative_imgs w 0 items ! j))"
proof -
  have "src (image_load_failed i (DynamicCollageBackground str rnd images) ! i) =
      ''https://placehold.co/300x300/1e293b/94a3b8?text=Image''"
    if "i < length (DynamicCollageBackground str rnd images)" for i
    by (rule image_load_failed_collage [OF that
          DynamicCollageBackground_onError [OF nth_mem [OF that]]])
  moreover have "src (image_load_failed i (narrative_imgs w 0 items) ! i) =
      ''https://placehold.co/800x600/9ca3af/ffffff?text=Image+Missing''"
    if "i < length (narrative_imgs w 0 items)" for i
    by (rule image_load_failed_narrative [OF that
          narrative_imgs_onError [OF nth_mem [OF that]]])
  ultimately show ?thesis
    by (simp add: image_load_failed_length image_load_failed_more image_load_failed_alt
        image_load_failed_other)
qed

theorem image_fallback_local_witness:
  "(let out = DynamicCollageBackground (\<lambda>r. ''0.5'') (\<lambda>n. Abs_draw (1 / 2)) collageData
    in 3 < length out \<and>
       src (image_load_failed 3 out ! 3) =
         ''https://placehold.co/300x300/1e293b/94a3b8?text=Image'' \<and>
       length (image_load_failed 3 out) = 24 \<and>
       image_load_failed 3 out ! 2 = out ! 2) \<and>
   (let secs = narrative_imgs \<lparr>innerWidth = 1024, scrollY = 0\<rparr> 0 collageData
    in 1 < length secs \<and>
       src (image_load_failed 1 secs ! 1) =
         ''https://placehold.co/800x600/9ca3af/ffffff?text=Image+Missing'' \<and>
       image_load_failed 1 secs ! 0 = secs ! 0)"
proof -
  let ?out = "DynamicCollageBackground (\<lambda>r. ''0.5'') (\<lambda>n. Abs_draw (1 / 2)) collageData"
  let ?secs = "narrative_imgs \<lparr>innerWidth = 1024, scrollY = 0\<rparr> 0 collageData"
  have len: "length ?out = 24"
    by (simp add: DynamicCollageBackground_length length_collageData duplicationFactor_def)
  have len': "length ?secs = 6"
    by (simp add: narrative_imgs_length length_collageData)
  note t = image_fallback_local [of "\<lambda>r. ''0.5''" "\<lambda>n. Abs_draw (1 / 2)" collageData
      "\<lparr>innerWidth = 1024, scrollY = 0\<rparr>" collageData]
  from t len have a: "src (image_load_failed 3 ?out ! 3) =
      ''https://placehold.co/300x300/1e293b/94a3b8?text=Image'' \<and>
      length (image_load_failed 3 ?out) = 24 \<and> image_load_failed 3 ?out ! 2 = ?out ! 2"
    by simp
  from t len' have b: "src (image_load_failed 1 ?secs ! 1) =
      ''https://placehold.co/800x600/9ca3af/ffffff?text=Image+Missing'' \<and>
      image_load_failed 1 ?secs ! 0 = ?secs ! 0"
    by simp
  from a b len len' show ?thesis by (simp add: Let_def)
qed

text \<open>
  C7. The threshold a narrative section passes to its tracker is 0.1 when the width of
  the viewport is below 768, and 0.3 otherwise.
\<close>

theorem NarrativeSection_threshold:
  "(innerWidth w < 768 \<longrightarrow>
      threshold (section_options (NarrativeSection w item index inView)) = 1 / 10) \<and>
   (768 \<le> innerWidth w \<longrightarrow>
      threshold (section_options (NarrativeSection w item index inView)) = 3 / 10)"
  by (simp add: NarrativeSection_def Let_def)

theorem NarrativeSection_threshold_witness:
  "innerWidth \<lparr>innerWidth = 375, scrollY = 0\<rparr> < 768 \<and>
   threshold (section_options
     (NarrativeSection \<lparr>innerWidth = 375, scrollY = 0\<rparr> (hd collageData) 0 False)) = 1 / 10 \<and>
   768 \<le> innerWidth \<lparr>innerWidth = 768, scrollY = 0\<rparr> \<and>
   threshold (section_options
     (NarrativeSection \<lparr>innerWidth = 768, scrollY = 0\<rparr> (hd collageData) 0 False)) = 3 / 10"
  using NarrativeSection_threshold [of "\<lparr>innerWidth = 375, scrollY = 0\<rparr>" "hd collageData" 0 False]
    NarrativeSection_threshold [of "\<lparr>innerWidth = 768, scrollY = 0\<rparr>" "hd collageData" 0 False]
  by simp

text \<open>
  C8. The image at position \<open>i\<close> of the collage has the animation delay \<open>1.5 * i\<close> and the
  animation duration \<open>30 + 2 * i\<close>, in seconds; the duration grows strictly with the
  position, and no two images have the same pair of delay and duration.
\<close>

theorem collage_animation_timing:
  "(\<forall>i < length (DynamicCollageBackground str rnd images).
      style_animationDelay (DynamicCollageBackground str rnd images ! i) = 1.5 * real i \<and>
      animation_duration (DynamicCollageBackground str rnd images ! i) = 30 + 2 * real i) \<and>
   (\<forall>i j. i < j \<and> j < length (DynamicCollageBackground str rnd images) \<longrightarrow>
      animation_duration (DynamicCollageBackground str rnd images ! i) <
      animation_duration (DynamicCollageBackground str rnd images ! j)) \<and>
   distinct (map (\<lambda>p. (style_animationDelay p, animation_duration p))
     (DynamicCollageBackground str rnd images))"
proof -
  let ?out = "DynamicCollageBackground str rnd images"
  have t: "style_animationDelay (?out ! i) = 1.5 * real i \<and>
      animation_duration (?out ! i) = 30 + 2 * real i" if "i < length ?out" for i
    using that by (simp add: DynamicCollageBackground_nth collage_item_timing)
  have "animation_duration (?out ! i) < animation_duration (?out ! j)"
    if "i < j" "j < length ?out" for i j
    using that t [of i] t [of j] by simp
  moreover have "distinct (map (\<lambda>p. (style_animationDelay p, animation_duration p)) ?out)"
    unfolding distinct_conv_nth
  proof (intro allI impI)
    fix i j
    assume "i < length (map (\<lambda>p. (style_animationDelay p, animation_duration p)) ?out)"
      and "j < length (map (\<lambda>p. (style_animationDelay p, animation_duration p)) ?out)"
      and "i \<noteq> j"
    then show "map (\<lambda>p. (style_animationDelay p, animation_duration p)) ?out ! i \<noteq>
        map (\<lambda>p. (style_animationDelay p, animation_duration p)) ?out ! j"
      using t [of i] t [of j] by simp
  qed
  ultimately show ?thesis using t by blast
qed

theorem collage_animation_timing_witness:
  "(let out = DynamicCollageBackground (\<lambda>r. ''0.5'') (\<lambda>n. Abs_draw (1 / 2)) collageData
    in 1 < length out \<and>
       style_animationDelay (out ! 0) = 0 \<and> animation_duration (out ! 0) = 30 \<and>
       style_animationDelay (out ! 1) = 3 / 2 \<and> animation_duration (out ! 1) = 32 \<and>
       animation_duration (out ! 0) < animation_duration (out ! 1))"
proof -
  let ?out = "DynamicCollageBackground (\<lambda>r. ''0.5'') (\<lambda>n. Abs_draw (1 / 2)) collageData"
  have len: "length ?out = 24"
    by (simp add: DynamicCollageBackground_length length_collageData duplicationFactor_def)
  note t = collage_animation_timing [of "\<lambda>r. ''0.5''" "\<lambda>n. Abs_draw (1 / 2)" collageData]
  from t [THEN conjunct1, THEN spec, of 0] len
  have "style_animationDelay (?out ! 0) = 0 \<and> animation_duration (?out ! 0) = 30"
    by simp
  moreover from t [THEN conjunct1, THEN spec, of 1] len
  have "style_animationDelay (?out ! 1) = 3 / 2 \<and> animation_duration (?out ! 1) = 32"
    by simp
  ultimately show ?thesis using len by (simp add: Let_def)
qed

text \<open>
  C9. The indicator is shown when the page is created. With no \<^verbatim>\<open>handleScroll\<close> listener
  registered before, mounting the page registers exactly one and unmounting it restores
  the listeners there were. While the listener is registered, the indicator is shown after
  a scroll event if and only if the scroll offset is at most 100; without the listener a
  scroll event changes nothing.
\<close>

theorem scroll_indicator:
  "showScrollIndicator (App_initial ls) \<and>
   (HandleScroll \<notin> set ls \<longrightarrow>
      count_list (scroll_listeners (App_mount (App_initial ls))) HandleScroll = 1 \<and>
      scroll_listeners (App_unmount (App_mount (App_initial ls))) = ls) \<and>
   (HandleScroll \<in> set (scroll_listeners p) \<longrightarrow>
      showScrollIndicator (scroll_event w p) = (scrollY w \<le> 100)) \<and>
   showScrollIndicator (scroll_event w (App_mount (App_initial ls))) = (scrollY w \<le> 100) \<and>
   (HandleScroll \<notin> set (scroll_listeners p) \<longrightarrow> scroll_event w p = p)"
  by (auto simp: App_initial_def App_mount_def App_unmount_def addEventListener_def
      removeEventListener_def scroll_event_def handleScroll_def remove1_append)

theorem scroll_indicator_witness:
  "HandleScroll \<notin> set [OtherListener 0] \<and>
   count_list (scroll_listeners (App_mount (App_initial [OtherListener 0]))) HandleScroll = 1 \<and>
   scroll_listeners (App_unmount (App_mount (App_initial [OtherListener 0]))) =
     [OtherListener 0] \<and>
   HandleScroll \<in> set (scroll_listeners (App_mount (App_initial [OtherListener 0]))) \<and>
   \<not> showScrollIndicator (scroll_event \<lparr>innerWidth = 1024, scrollY = 101\<rparr>
       (App_mount (App_initial [OtherListener 0]))) \<and>
   showScrollIndicator (scroll_event \<lparr>innerWidth = 1024, scrollY = 100\<rparr>
     (scroll_event \<lparr>innerWidth = 1024, scrollY = 101\<rparr>
       (App_mount (App_initial [OtherListener 0]))))"
proof -
  let ?p = "App_mount (App_initial [OtherListener 0])"
  have a: "HandleScroll \<notin> set [OtherListener 0]" by simp
  have b: "HandleScroll \<in> set (scroll_listeners ?p)"
    by (simp add: App_mount_def App_initial_def addEventListener_def)
  have c: "HandleScroll \<in> set (scroll_listeners
      (scroll_event \<lparr>innerWidth = 1024, scrollY = 101\<rparr> ?p))"
    by (simp add: App_mount_def App_initial_def addEventListener_def scroll_event_def)
  from scroll_indicator [of "[OtherListener 0]" ?p "\<lparr>innerWidth = 1024, scrollY = 101\<rparr>"]
    scroll_indicator [of "[OtherListener 0]"
      "scroll_event \<lparr>innerWidth = 1024, scrollY = 101\<rparr> ?p"
      "\<lparr>innerWidth = 1024, scrollY = 100\<rparr>"]
    a b c
  show ?thesis by simp
qed

text \<open>
  C10, with the input where the code departs from it. The handler does set \<^verbatim>\<open>onerror\<close>
  to \<^verbatim>\<open>null\<close>, and a second run of it leaves the element as the first run left it. But
  the handler is registered through the \<^verbatim>\<open>onError\<close> prop, and the property it clears
  never held it: the listener stays. When no resource can be loaded, the placeholder
  included, the handler runs again at every failure: followed for \<open>n\<close> loads, it has run
  \<open>n\<close> times, not once.
\<close>

theorem fallback_runs_at_every_failure:
  "onerror (error_event el) = None \<and>
   onError (error_event el) = onError el \<and>
   error_event (error_event el) = error_event el \<and>
   fst (load_attempts n (\<lambda>url. False) el) = n"
proof -
  have "fst (load_attempts n (\<lambda>url. False) el) = n"
    by (induction n arbitrary: el) (simp_all add: case_prod_unfold)
  then show ?thesis
    by (simp add: error_event_clears_property error_event_keeps_listener
        error_event_idempotent)
qed

end
